theory Spec2Isabelle
  imports Complex_Main
begin

section \<open>The simulation route of ShelfSense\<close>

text \<open>
  This theory embeds \<^verbatim>\<open>src/app/api/simulation/route.ts\<close>: the product table
  \<^verbatim>\<open>PRODUCTS\<close>, \<^verbatim>\<open>generateShelfSnapshot\<close>, \<^verbatim>\<open>generateStoreAnalytics\<close> and the
  handler \<^verbatim>\<open>GET\<close>.

  Conventions of the embedding.
  \<^item> A JavaScript number is a \<open>real\<close>; the rounding of IEEE doubles is not modelled.
    A product such as \<^verbatim>\<open>Math.random() * 15\<close> is therefore exact here, where a double
    product just below an integer can round up to it (at the double 0.6 the source
    computes 9 and the exact product lies below 9). The properties below are
    bounds and relations that do not depend on which side such a draw falls; the
    sample sources draw 0 and 1/2, whose products are exact in doubles.
    Where an expression of the source can leave the finite numbers (a division
    \<^verbatim>\<open>0 / 0\<close>), the value is a \<open>real option\<close> and \<open>None\<close> stands for a non-finite
    number (\<^verbatim>\<open>NaN\<close> or an infinity).
  \<^item> \<^verbatim>\<open>Math.random()\<close> reads a random source \<open>rs :: nat \<Rightarrow> real\<close>: the call number
    \<open>k\<close> of a run returns \<open>rs k\<close>. Functions that draw take the number of calls made so
    far and return the number made when they are done. The contract of
    \<^verbatim>\<open>Math.random\<close>, a value in \<open>[0, 1)\<close>, is the predicate \<open>valid_rng\<close>.
  \<^item> \<^verbatim>\<open>Date.now()\<close> and \<^verbatim>\<open>new Date()\<close> read a clock value \<open>now\<close> given by the caller,
    in milliseconds; a timestamp is kept as that number.
  \<^item> An exception is a value: a function that can throw returns \<open>error + 'a\<close>.
\<close>

subsection \<open>Numbers, the random source, strings\<close>

type_synonym rng = "nat \<Rightarrow> real"

definition valid_rng :: "rng \<Rightarrow> bool" where
  "valid_rng rs = (\<forall>i. 0 \<le> rs i \<and> rs i < 1)"

datatype error = TypeError

text \<open>The division \<^verbatim>\<open>a / b\<close> of a number that may be non-finite by a finite one.\<close>

definition js_div :: "real option \<Rightarrow> real \<Rightarrow> real option" where
  "js_div a b =
     (case a of
        None \<Rightarrow> None
      | Some v \<Rightarrow> if b = 0 then None else Some (v / b))"

text \<open>The sum \<^verbatim>\<open>a + b\<close> where \<open>b\<close> may be non-finite.\<close>

definition js_add :: "real option \<Rightarrow> real option \<Rightarrow> real option" where
  "js_add a b =
     (case a of
        None \<Rightarrow> None
      | Some v \<Rightarrow> (case b of None \<Rightarrow> None | Some w \<Rightarrow> Some (v + w)))"

text \<open>The decimal digits of a natural number, as a template literal prints it.\<close>

fun show_nat :: "nat \<Rightarrow> string" where
  "show_nat n =
     (if n < 10 then [char_of (48 + n)]
      else show_nat (n div 10) @ [char_of (48 + n mod 10)])"

declare show_nat.simps [simp del]

subsection \<open>The product table\<close>

record product =
  p_id :: string
  p_name :: string
  p_category :: string
  price :: real
  p_brand :: string

definition PRODUCTS :: "product list" where
  "PRODUCTS =
     [\<lparr>p_id = ''P001'', p_name = ''Coca Cola 2L'', p_category = ''Beverages'',
        price = 2.99, p_brand = ''Coca Cola''\<rparr>,
      \<lparr>p_id = ''P002'', p_name = ''Pepsi 2L'', p_category = ''Beverages'',
        price = 2.79, p_brand = ''Pepsi''\<rparr>,
      \<lparr>p_id = ''P003'', p_name = ''Sprite 2L'', p_category = ''Beverages'',
        price = 2.89, p_brand = ''Coca Cola''\<rparr>,
      \<lparr>p_id = ''P004'', p_name = ''Mountain Dew 2L'', p_category = ''Beverages'',
        price = 2.99, p_brand = ''Pepsi''\<rparr>,
      \<lparr>p_id = ''P005'', p_name = ''Lays Classic'', p_category = ''Snacks'',
        price = 3.49, p_brand = ''Lays''\<rparr>,
      \<lparr>p_id = ''P006'', p_name = ''Doritos Nacho'', p_category = ''Snacks'',
        price = 3.79, p_brand = ''Doritos''\<rparr>,
      \<lparr>p_id = ''P007'', p_name = ''Cheetos Puffs'', p_category = ''Snacks'',
        price = 3.29, p_brand = ''Cheetos''\<rparr>,
      \<lparr>p_id = ''P008'', p_name = ''Pringles Original'', p_category = ''Snacks'',
        price = 2.99, p_brand = ''Pringles''\<rparr>,
      \<lparr>p_id = ''P009'', p_name = ''Tide Detergent'', p_category = ''Household'',
        price = 12.99, p_brand = ''Tide''\<rparr>,
      \<lparr>p_id = ''P010'', p_name = ''Bounty Paper Towels'', p_category = ''Household'',
        price = 8.99, p_brand = ''Bounty''\<rparr>]"

subsection \<open>Detections\<close>

record bounding_box =
  bbox_x :: int
  bbox_y :: int
  bbox_width :: int
  bbox_height :: int

record detection =
  detection_id :: string
  product_id :: string
  product_name :: string
  category :: string
  brand :: string
  confidence :: real
  bbox :: bounding_box
  is_misplaced :: bool
  is_low_stock :: bool
  timestamp :: nat

text \<open>
  \<^verbatim>\<open>PRODUCTS[Math.floor(r * PRODUCTS.length)]\<close>, line 22. An index outside the table
  reads \<^verbatim>\<open>undefined\<close>, and the first property read of it (\<^verbatim>\<open>product.id\<close>, line 25)
  throws a \<^verbatim>\<open>TypeError\<close>.
\<close>

definition pick_product :: "real \<Rightarrow> error + product" where
  "pick_product r =
     (let idx = \<lfloor>r * real (length PRODUCTS)\<rfloor>
      in if 0 \<le> idx \<and> idx < int (length PRODUCTS)
         then Inr (PRODUCTS ! nat idx)
         else Inl TypeError)"

text \<open>
  The body of the loop of lines 21 to 40: iteration \<open>i\<close>, entered after \<open>k\<close> draws.
  It draws eight times, in the order in which the source evaluates them: the
  product, the confidence, the four numbers of the box, the two flags.
\<close>

definition make_detection :: "string \<Rightarrow> nat \<Rightarrow> nat \<Rightarrow> rng \<Rightarrow> nat \<Rightarrow> error + detection" where
  "make_detection shelfId i now rs k =
     (case pick_product (rs k) of
        Inl e \<Rightarrow> Inl e
      | Inr product \<Rightarrow>
          Inr \<lparr>detection_id = ''det_'' @ shelfId @ ''_'' @ show_nat i @ ''_'' @ show_nat now,
               product_id = p_id product,
               product_name = p_name product,
               category = p_category product,
               brand = p_brand product,
               confidence = 0.85 + rs (k + 1) * 0.14,
               bbox = \<lparr>bbox_x = \<lfloor>rs (k + 2) * 1600\<rfloor> + 50,
                        bbox_y = \<lfloor>rs (k + 3) * 800\<rfloor> + 50,
                        bbox_width = \<lfloor>rs (k + 4) * 120\<rfloor> + 80,
                        bbox_height = \<lfloor>rs (k + 5) * 150\<rfloor> + 100\<rparr>,
               is_misplaced = (rs (k + 6) < 0.05),
               is_low_stock = (rs (k + 7) < 0.15),
               timestamp = now\<rparr>)"

text \<open>
  The loop \<^verbatim>\<open>for (let i = 0; i < numProducts; i++)\<close> with its \<^verbatim>\<open>detections.push\<close>.
  It returns the list and the number of draws made.
\<close>

function detections_loop ::
  "string \<Rightarrow> nat \<Rightarrow> rng \<Rightarrow> int \<Rightarrow> nat \<Rightarrow> nat \<Rightarrow> detection list \<Rightarrow> error + (detection list \<times> nat)" where
  "detections_loop shelfId now rs numProducts i k detections =
     (if int i < numProducts then
        (case make_detection shelfId i now rs k of
           Inl e \<Rightarrow> Inl e
         | Inr d \<Rightarrow> detections_loop shelfId now rs numProducts (Suc i) (k + 8) (detections @ [d]))
      else Inr (detections, k))"
  by pat_completeness auto
termination
  by (relation "measure (\<lambda>(shelfId, now, rs, numProducts, i, k, detections). nat (numProducts - int i))")
     auto

declare detections_loop.simps [simp del]

subsection \<open>Shelf snapshots\<close>

record metrics =
  total_products :: nat
  unique_products :: nat
  avg_confidence :: "real option"
  total_value :: real
  misplaced_count :: nat
  low_stock_count :: nat

record condition_info =
  overall_score :: real
  condition :: string
  alerts :: nat

record shelf_snapshot =
  snapshot_id :: string
  shelf_id :: string
  store_id :: string
  snapshot_timestamp :: nat
  detections :: "detection list"
  metrics :: metrics
  condition_of :: condition_info
  processing_time_ms :: int

text \<open>
  Lines 42 to 45. \<^verbatim>\<open>product?.price || 0\<close> is 0 when \<^verbatim>\<open>find\<close> returns nothing and
  when the price is the falsy number 0.
\<close>

definition matched_price :: "detection \<Rightarrow> real" where
  "matched_price d =
     (case find (\<lambda>p. p_id p = product_id d) PRODUCTS of
        None \<Rightarrow> 0
      | Some product \<Rightarrow> if price product = 0 then 0 else price product)"

definition totalValue :: "detection list \<Rightarrow> real" where
  "totalValue ds = foldl (\<lambda>sum d. sum + matched_price d) 0 ds"

text \<open>Line 51.\<close>

definition conditionScore :: "nat \<Rightarrow> nat \<Rightarrow> int \<Rightarrow> real" where
  "conditionScore misplacedCount lowStockCount numProducts =
     max 0 (100 - real misplacedCount * 10 - real lowStockCount * 5
              + (real_of_int numProducts / 20) * 30)"

text \<open>Lines 53 to 56: the variable \<^verbatim>\<open>condition\<close> and its three reassignments.\<close>

definition condition_label :: "real \<Rightarrow> string" where
  "condition_label score =
     (let c0 = ''Excellent'';
          c1 = (if score < 85 then ''Good'' else c0);
          c2 = (if score < 70 then ''Fair'' else c1);
          c3 = (if score < 50 then ''Poor'' else c2)
      in c3)"

text \<open>
  \<^verbatim>\<open>generateShelfSnapshot(shelfId, storeId)\<close>, entered after \<open>k\<close> draws. The first draw
  is \<^verbatim>\<open>numProducts\<close>, the last one \<^verbatim>\<open>processing_time_ms\<close>. A \<^verbatim>\<open>Set\<close> keeps the first
  occurrence of each element, so its size is the length of the list without
  duplicates.
\<close>

definition generateShelfSnapshot ::
  "string \<Rightarrow> string \<Rightarrow> nat \<Rightarrow> rng \<Rightarrow> nat \<Rightarrow> error + (shelf_snapshot \<times> nat)" where
  "generateShelfSnapshot shelfId storeId now rs k =
     (let numProducts = \<lfloor>rs k * 15\<rfloor> + 10
      in case detections_loop shelfId now rs numProducts 0 (k + 1) [] of
           Inl e \<Rightarrow> Inl e
         | Inr (ds, k') \<Rightarrow>
             (let misplacedCount = length (filter is_misplaced ds);
                  lowStockCount = length (filter is_low_stock ds);
                  score = conditionScore misplacedCount lowStockCount numProducts
              in Inr (\<lparr>snapshot_id = ''snap_'' @ shelfId @ ''_'' @ show_nat now,
                        shelf_id = shelfId,
                        store_id = storeId,
                        snapshot_timestamp = now,
                        detections = ds,
                        metrics =
                          \<lparr>total_products = length ds,
                           unique_products = length (remdups (map product_id ds)),
                           avg_confidence =
                             js_div (Some (foldl (\<lambda>sum d. sum + confidence d) 0 ds))
                                    (real (length ds)),
                           total_value = totalValue ds,
                           misplaced_count = misplacedCount,
                           low_stock_count = lowStockCount\<rparr>,
                        condition_of =
                          \<lparr>overall_score = score,
                           condition = condition_label score,
                           alerts = misplacedCount + lowStockCount\<rparr>,
                        processing_time_ms = \<lfloor>rs k' * 170\<rfloor> + 80\<rparr>,
                      k' + 1)))"

subsection \<open>Store analytics\<close>

record summary =
  total_shelves :: int
  summary_total_products :: nat
  summary_total_value :: real
  summary_avg_confidence :: "real option"
  total_alerts :: nat
  efficiency_score :: "real option"

record performance =
  excellent_shelves :: nat
  good_shelves :: nat
  fair_shelves :: nat
  poor_shelves :: nat

record store_analytics =
  analytics_store_id :: string
  analytics_timestamp :: nat
  summary :: summary
  shelf_snapshots :: "shelf_snapshot list"
  performance :: performance

text \<open>
  The loop of lines 84 to 87. \<^verbatim>\<open>numShelves\<close> is a JavaScript number used as a count;
  it is an \<open>int\<close> here, so that zero and negative counts are inputs of the model.
\<close>

function shelves_loop ::
  "string \<Rightarrow> nat \<Rightarrow> rng \<Rightarrow> int \<Rightarrow> nat \<Rightarrow> nat \<Rightarrow> shelf_snapshot list
     \<Rightarrow> error + (shelf_snapshot list \<times> nat)" where
  "shelves_loop storeId now rs numShelves i k shelves =
     (if int i < numShelves then
        (case generateShelfSnapshot (''shelf_'' @ show_nat (i + 1)) storeId now rs k of
           Inl e \<Rightarrow> Inl e
         | Inr (snapshot, k') \<Rightarrow>
             shelves_loop storeId now rs numShelves (Suc i) k' (shelves @ [snapshot]))
      else Inr (shelves, k))"
  by pat_completeness auto
termination
  by (relation "measure (\<lambda>(storeId, now, rs, numShelves, i, k, shelves). nat (numShelves - int i))")
     auto

declare shelves_loop.simps [simp del]

text \<open>\<^verbatim>\<open>generateStoreAnalytics(storeId, numShelves)\<close>, lines 81 to 116.\<close>

definition generateStoreAnalytics ::
  "string \<Rightarrow> int \<Rightarrow> nat \<Rightarrow> rng \<Rightarrow> nat \<Rightarrow> error + (store_analytics \<times> nat)" where
  "generateStoreAnalytics storeId numShelves now rs k =
     (case shelves_loop storeId now rs numShelves 0 k [] of
        Inl e \<Rightarrow> Inl e
      | Inr (shelves, k') \<Rightarrow>
          (let totalProducts = foldl (\<lambda>sum s. sum + total_products (metrics s)) 0 shelves;
               totalValue' = foldl (\<lambda>sum s. sum + total_value (metrics s)) 0 shelves;
               avgConfidence =
                 (case foldl (\<lambda>sum s. js_add sum (avg_confidence (metrics s))) (Some 0) shelves of
                    None \<Rightarrow> None
                  | Some v \<Rightarrow> js_div (Some v) (real (length shelves)));
               totalAlerts = foldl (\<lambda>sum s. sum + alerts (condition_of s)) 0 shelves;
               shelvesGood = length (filter (\<lambda>s. overall_score (condition_of s) \<ge> 70) shelves);
               efficiency =
                 map_option (\<lambda>v. v * 100) (js_div (Some (real shelvesGood)) (real_of_int numShelves))
           in Inr (\<lparr>analytics_store_id = storeId,
                     analytics_timestamp = now,
                     summary =
                       \<lparr>total_shelves = numShelves,
                        summary_total_products = totalProducts,
                        summary_total_value = totalValue',
                        summary_avg_confidence = avgConfidence,
                        total_alerts = totalAlerts,
                        efficiency_score = efficiency\<rparr>,
                     shelf_snapshots = shelves,
                     performance =
                       \<lparr>excellent_shelves =
                          length (filter (\<lambda>s. condition (condition_of s) = ''Excellent'') shelves),
                        good_shelves =
                          length (filter (\<lambda>s. condition (condition_of s) = ''Good'') shelves),
                        fair_shelves =
                          length (filter (\<lambda>s. condition (condition_of s) = ''Fair'') shelves),
                        poor_shelves =
                          length (filter (\<lambda>s. condition (condition_of s) = ''Poor'') shelves)\<rparr>\<rparr>,
                   k')))"

subsection \<open>The request handler\<close>

text \<open>
  The three query parameters; \<^verbatim>\<open>searchParams.get\<close> returns \<^verbatim>\<open>null\<close> for a parameter
  that is absent, \<open>None\<close> here.
\<close>

record request =
  param_type :: "string option"
  param_storeId :: "string option"
  param_shelfId :: "string option"

datatype body =
    Snapshot_body shelf_snapshot
  | Analytics_body store_analytics
  | Error_body string

record response =
  body :: body
  status :: nat

text \<open>\<^verbatim>\<open>v || d\<close> on a string or \<^verbatim>\<open>null\<close>: \<^verbatim>\<open>null\<close> and the empty string are falsy.\<close>

definition or_default :: "string option \<Rightarrow> string \<Rightarrow> string" where
  "or_default v d = (case v of None \<Rightarrow> d | Some s \<Rightarrow> if s = [] then d else s)"

definition truthy :: "string option \<Rightarrow> bool" where
  "truthy v = (case v of None \<Rightarrow> False | Some s \<Rightarrow> s \<noteq> [])"

text \<open>
  \<^verbatim>\<open>GET(request)\<close>, lines 118 to 139. \<^verbatim>\<open>NextResponse.json\<close> answers with status 200
  unless another one is given. The \<^verbatim>\<open>catch\<close> turns every exception into the 500
  answer. In the first branch \<open>shelfId\<close> is truthy, so \<open>or_default shelfId []\<close> is
  the string it holds.
\<close>

definition GET :: "request \<Rightarrow> nat \<Rightarrow> rng \<Rightarrow> nat \<Rightarrow> response" where
  "GET req now rs k =
     (let type' = or_default (param_type req) ''store'';
          storeId = or_default (param_storeId req) ''store_001'';
          shelfId = param_shelfId req
      in if type' = ''shelf'' \<and> truthy shelfId then
           (case generateShelfSnapshot (or_default shelfId []) storeId now rs k of
              Inl e \<Rightarrow> \<lparr>body = Error_body ''Simulation failed'', status = 500\<rparr>
            | Inr (snapshot, k') \<Rightarrow> \<lparr>body = Snapshot_body snapshot, status = 200\<rparr>)
         else if type' = ''store'' then
           (case generateStoreAnalytics storeId 12 now rs k of
              Inl e \<Rightarrow> \<lparr>body = Error_body ''Simulation failed'', status = 500\<rparr>
            | Inr (analytics, k') \<Rightarrow> \<lparr>body = Analytics_body analytics, status = 200\<rparr>)
         else \<lparr>body = Error_body ''Invalid request type'', status = 400\<rparr>)"

subsection \<open>The stream scheduler's validation\<close>

datatype event_type = Detection | Alert | Status

record stream_event =
  event_kind :: event_type
  cameraId :: nat
  event_time :: real

record weights =
  w_detection :: real
  w_alert :: real
  w_status :: real

record stream_config =
  cameraCount :: int
  durationSeconds :: real
  frameRate :: real
  event_weights :: weights

datatype stream_error = InvalidConfiguration

text \<open>
  Modelled from the spec: the stream scheduler (\<^verbatim>\<open>simulate\<close>, section 4.5 of the
  specification) is not among the source files, only its description is. The
  definitions below follow the specification's words: the weights must sum to 1
  within \<open>10\<^sup>-\<^sup>6\<close>, the camera count, the duration and the frame rate must be
  positive, otherwise \<^verbatim>\<open>simulate\<close> fails with \<^verbatim>\<open>InvalidConfiguration\<close> before it emits
  anything. The events of a valid run are listed camera after camera, one event
  per frame interval, each with a type drawn from the weights; the interleaving
  of the concurrent camera loops, the queues and the sliding window are left
  out.
\<close>

definition weights_sum :: "weights \<Rightarrow> real" where
  "weights_sum w = w_detection w + w_alert w + w_status w"

definition weights_ok :: "weights \<Rightarrow> bool" where
  "weights_ok w = (\<bar>weights_sum w - 1\<bar> \<le> 1 / 10 ^ 6)"

definition config_ok :: "stream_config \<Rightarrow> bool" where
  "config_ok cfg =
     (weights_ok (event_weights cfg) \<and> 0 < cameraCount cfg
      \<and> 0 < durationSeconds cfg \<and> 0 < frameRate cfg)"

definition draw_type :: "weights \<Rightarrow> real \<Rightarrow> event_type" where
  "draw_type w r =
     (if r < w_detection w then Detection
      else if r < w_detection w + w_alert w then Alert
      else Status)"

definition camera_events :: "stream_config \<Rightarrow> rng \<Rightarrow> nat \<Rightarrow> stream_event list" where
  "camera_events cfg rs c =
     (let ticks = nat \<lfloor>durationSeconds cfg * frameRate cfg\<rfloor>
      in map (\<lambda>t. \<lparr>event_kind = draw_type (event_weights cfg) (rs (c * ticks + t)),
                    cameraId = c,
                    event_time = real t / frameRate cfg\<rparr>)
             [0..<ticks])"

definition simulate :: "stream_config \<Rightarrow> rng \<Rightarrow> stream_error + stream_event list" where
  "simulate cfg rs =
     (if config_ok cfg
      then Inr (concat (map (camera_events cfg rs) [0..<nat (cameraCount cfg)]))
      else Inl InvalidConfiguration)"

subsection \<open>Reference notions of the specification and sample inputs\<close>

text \<open>The specification's \<open>clamp(v, lo, hi)\<close>.\<close>

definition clamp :: "real \<Rightarrow> real \<Rightarrow> real \<Rightarrow> real" where
  "clamp v lo hi = max lo (min hi v)"

text \<open>The catalog as a lookup table from product ids to prices.\<close>

definition catalog_price :: "string \<Rightarrow> real option" where
  "catalog_price = map_of (map (\<lambda>p. (p_id p, price p)) PRODUCTS)"

text \<open>The arithmetic mean of a non-empty list of numbers.\<close>

definition mean :: "real list \<Rightarrow> real" where
  "mean xs = sum_list xs / real (length xs)"

text \<open>Random sources that return the same number at every call.\<close>

definition rng_half :: rng where
  "rng_half i = 1 / 2"

definition rng_zero :: rng where
  "rng_zero i = 0"

text \<open>The weights of the specification's scenario, \<open>[0.5, 0.2, 0.1]\<close>.\<close>

definition scenario_config :: stream_config where
  "scenario_config =
     \<lparr>cameraCount = 4, durationSeconds = 30, frameRate = 30,
      event_weights = \<lparr>w_detection = 0.5, w_alert = 0.2, w_status = 0.1\<rparr>\<rparr>"

section \<open>Properties of the detection loop\<close>

lemma length_PRODUCTS: "length PRODUCTS = 10"
  by (simp add: PRODUCTS_def)

lemma pick_product_valid:
  assumes "0 \<le> r" "r < 1"
  shows "\<exists>p. pick_product r = Inr p"
proof -
  have "0 \<le> \<lfloor>r * 10\<rfloor>" using assms by simp
  moreover have "\<lfloor>r * 10\<rfloor> < 10" using assms by (simp add: floor_less_iff)
  ultimately show ?thesis by (simp add: pick_product_def length_PRODUCTS)
qed

lemma pick_product_Inr: "pick_product r = Inr p \<Longrightarrow> p \<in> set PRODUCTS"
  by (auto simp: pick_product_def Let_def nat_less_iff split: if_splits intro!: nth_mem)

lemma make_detection_valid:
  "valid_rng rs \<Longrightarrow> \<exists>d. make_detection shelfId i now rs k = Inr d"
  using pick_product_valid [of "rs k"]
  by (auto simp: make_detection_def valid_rng_def)

lemma make_detection_product:
  "make_detection shelfId i now rs k = Inr d \<Longrightarrow> \<exists>p\<in>set PRODUCTS. p_id p = product_id d"
  by (auto simp: make_detection_def split: sum.splits dest: pick_product_Inr)

lemma make_detection_confidence:
  "make_detection shelfId i now rs k = Inr d \<Longrightarrow> confidence d = 0.85 + rs (k + 1) * 0.14"
  by (auto simp: make_detection_def split: sum.splits)

lemma make_detection_flags:
  "make_detection shelfId i now rs k = Inr d \<Longrightarrow>
     is_misplaced d = (rs (k + 6) < 0.05) \<and> is_low_stock d = (rs (k + 7) < 0.15)"
  by (auto simp: make_detection_def split: sum.splits)

lemma detections_loop_all:
  "detections_loop shelfId now rs n i k acc = Inr (ds, k') \<Longrightarrow>
   (\<And>j m d. make_detection shelfId j now rs m = Inr d \<Longrightarrow> Q d) \<Longrightarrow>
   \<forall>d\<in>set acc. Q d \<Longrightarrow> \<forall>d\<in>set ds. Q d"
proof (induction shelfId now rs n i k acc rule: detections_loop.induct)
  case (1 shelfId now rs numProducts i k acc)
  show ?case
  proof (cases "int i < numProducts")
    case True
    then obtain d where d: "make_detection shelfId i now rs k = Inr d"
      and rec: "detections_loop shelfId now rs numProducts (Suc i) (k + 8) (acc @ [d]) = Inr (ds, k')"
      using "1.prems"(1) by (subst (asm) detections_loop.simps) (auto split: sum.splits)
    have "Q d" using "1.prems"(2) d by blast
    with "1.prems"(3) have "\<forall>x\<in>set (acc @ [d]). Q x" by simp
    with "1.IH" [OF True d rec] "1.prems"(2) show ?thesis by blast
  next
    case False
    with "1.prems" show ?thesis by (subst (asm) detections_loop.simps) simp
  qed
qed

lemma detections_loop_length:
  "detections_loop shelfId now rs n i k acc = Inr (ds, k') \<Longrightarrow>
     length ds = length acc + nat (n - int i) \<and> k' = k + 8 * nat (n - int i)"
proof (induction shelfId now rs n i k acc rule: detections_loop.induct)
  case (1 shelfId now rs numProducts i k acc)
  show ?case
  proof (cases "int i < numProducts")
    case True
    then obtain d where d: "make_detection shelfId i now rs k = Inr d"
      and rec: "detections_loop shelfId now rs numProducts (Suc i) (k + 8) (acc @ [d]) = Inr (ds, k')"
      using "1.prems"(1) by (subst (asm) detections_loop.simps) (auto split: sum.splits)
    have "nat (numProducts - int i) = Suc (nat (numProducts - int (Suc i)))"
      using True by simp
    with "1.IH" [OF True d rec] show ?thesis by simp
  next
    case False
    with "1.prems" show ?thesis by (subst (asm) detections_loop.simps) simp
  qed
qed

lemma detections_loop_total:
  "valid_rng rs \<Longrightarrow> \<exists>ds k'. detections_loop shelfId now rs n i k acc = Inr (ds, k')"
proof (induction shelfId now rs n i k acc rule: detections_loop.induct)
  case (1 shelfId now rs numProducts i k acc)
  show ?case
  proof (cases "int i < numProducts")
    case True
    obtain d where d: "make_detection shelfId i now rs k = Inr d"
      using make_detection_valid [OF "1.prems"] by blast
    from "1.IH" [OF True d "1.prems"] True d show ?thesis
      by (subst detections_loop.simps) simp
  next
    case False
    then show ?thesis by (subst detections_loop.simps) simp
  qed
qed

section \<open>Properties of shelf snapshots\<close>

lemma numProducts_range:
  assumes "valid_rng rs"
  shows "10 \<le> \<lfloor>rs k * 15\<rfloor> + 10 \<and> \<lfloor>rs k * 15\<rfloor> + 10 \<le> 24"
proof -
  have "0 \<le> rs k" "rs k < 1" using assms by (simp_all add: valid_rng_def)
  then have "0 \<le> \<lfloor>rs k * 15\<rfloor>" "\<lfloor>rs k * 15\<rfloor> < 15" by (simp_all add: floor_less_iff)
  then show ?thesis by simp
qed

lemma snapshot_loop:
  "generateShelfSnapshot shelfId storeId now rs k = Inr (s, k') \<Longrightarrow>
   \<exists>k''. detections_loop shelfId now rs (\<lfloor>rs k * 15\<rfloor> + 10) 0 (k + 1) [] = Inr (detections s, k'')
          \<and> k' = k'' + 1"
  by (auto simp: generateShelfSnapshot_def Let_def split: sum.splits)

lemma snapshot_ids:
  "generateShelfSnapshot shelfId storeId now rs k = Inr (s, k') \<Longrightarrow>
   shelf_id s = shelfId \<and> store_id s = storeId"
  by (auto simp: generateShelfSnapshot_def Let_def split: sum.splits)

lemma snapshot_metrics:
  "generateShelfSnapshot shelfId storeId now rs k = Inr (s, k') \<Longrightarrow>
   metrics s =
     \<lparr>total_products = length (detections s),
      unique_products = length (remdups (map product_id (detections s))),
      avg_confidence =
        js_div (Some (foldl (\<lambda>sum d. sum + confidence d) 0 (detections s)))
               (real (length (detections s))),
      total_value = totalValue (detections s),
      misplaced_count = length (filter is_misplaced (detections s)),
      low_stock_count = length (filter is_low_stock (detections s))\<rparr>"
  by (auto simp: generateShelfSnapshot_def Let_def split: sum.splits)

lemma snapshot_condition:
  "generateShelfSnapshot shelfId storeId now rs k = Inr (s, k') \<Longrightarrow>
   overall_score (condition_of s) =
     conditionScore (length (filter is_misplaced (detections s)))
       (length (filter is_low_stock (detections s))) (\<lfloor>rs k * 15\<rfloor> + 10)
   \<and> condition (condition_of s) = condition_label (overall_score (condition_of s))
   \<and> alerts (condition_of s) =
       length (filter is_misplaced (detections s)) + length (filter is_low_stock (detections s))"
  by (auto simp: generateShelfSnapshot_def Let_def split: sum.splits)

lemma generateShelfSnapshot_total:
  assumes "valid_rng rs"
  shows "\<exists>s k'. generateShelfSnapshot shelfId storeId now rs k = Inr (s, k')"
proof -
  obtain ds k'' where
    "detections_loop shelfId now rs (\<lfloor>rs k * 15\<rfloor> + 10) 0 (k + 1) [] = Inr (ds, k'')"
    using detections_loop_total [OF assms] by blast
  then show ?thesis by (simp add: generateShelfSnapshot_def Let_def)
qed

lemma snapshot_length:
  assumes "generateShelfSnapshot shelfId storeId now rs k = Inr (s, k')"
  shows "int (length (detections s)) = max 0 (\<lfloor>rs k * 15\<rfloor> + 10)"
proof -
  from snapshot_loop [OF assms] obtain k'' where
    l: "detections_loop shelfId now rs (\<lfloor>rs k * 15\<rfloor> + 10) 0 (k + 1) [] = Inr (detections s, k'')"
    by blast
  from detections_loop_length [OF l] show ?thesis by simp
qed

lemma snapshot_all:
  assumes "generateShelfSnapshot shelfId storeId now rs k = Inr (s, k')"
    and "\<And>j m d. make_detection shelfId j now rs m = Inr d \<Longrightarrow> Q d"
  shows "\<forall>d\<in>set (detections s). Q d"
proof -
  from snapshot_loop [OF assms(1)] obtain k'' where
    l: "detections_loop shelfId now rs (\<lfloor>rs k * 15\<rfloor> + 10) 0 (k + 1) [] = Inr (detections s, k'')"
    by blast
  from detections_loop_all [OF l, of Q] assms(2) show ?thesis by simp
qed

lemma snapshot_length_valid:
  assumes "valid_rng rs" and "generateShelfSnapshot shelfId storeId now rs k = Inr (s, k')"
  shows "int (length (detections s)) = \<lfloor>rs k * 15\<rfloor> + 10
         \<and> 10 \<le> length (detections s) \<and> length (detections s) \<le> 24"
proof -
  have "10 \<le> \<lfloor>rs k * 15\<rfloor> + 10" "\<lfloor>rs k * 15\<rfloor> + 10 \<le> 24"
    using numProducts_range [OF assms(1), of k] by simp_all
  with snapshot_length [OF assms(2)] show ?thesis by linarith
qed


lemma valid_rng_half: "valid_rng rng_half"
  by (simp add: valid_rng_def rng_half_def)

lemma valid_rng_zero: "valid_rng rng_zero"
  by (simp add: valid_rng_def rng_zero_def)

text \<open>
  Claim C8. Every detection of a snapshot has a confidence between 0.85 and 0.99:
  for a random source within \<open>[0, 1)\<close> the builder returns a snapshot, its list of
  detections is not empty, and each confidence \<open>0.85 + r * 0.14\<close> lies in that
  interval.
\<close>

theorem confidence_in_range:
  assumes "valid_rng rs"
  shows "\<exists>s k'. generateShelfSnapshot shelfId storeId now rs k = Inr (s, k')
           \<and> detections s \<noteq> []
           \<and> (\<forall>d\<in>set (detections s). 0.85 \<le> confidence d \<and> confidence d \<le> 0.99)"
proof -
  obtain s k' where g: "generateShelfSnapshot shelfId storeId now rs k = Inr (s, k')"
    using generateShelfSnapshot_total [OF assms] by blast
  have "\<forall>d\<in>set (detections s). 0.85 \<le> confidence d \<and> confidence d \<le> 0.99"
  proof (rule snapshot_all [OF g])
    fix j m d
    assume "make_detection shelfId j now rs m = Inr d"
    then have c: "confidence d = 0.85 + rs (m + 1) * 0.14"
      by (rule make_detection_confidence)
    have "0 \<le> rs (m + 1)" "rs (m + 1) < 1" using assms by (simp_all add: valid_rng_def)
    with c show "0.85 \<le> confidence d \<and> confidence d \<le> 0.99" by simp
  qed
  moreover have "detections s \<noteq> []"
    using snapshot_length_valid [OF assms g] by auto
  ultimately show ?thesis using g by blast
qed

theorem confidence_in_range_witness:
  "valid_rng rng_half \<and>
   (\<exists>s k'. generateShelfSnapshot ''shelf_1'' ''store_1'' 0 rng_half 0 = Inr (s, k')
      \<and> detections s \<noteq> []
      \<and> (\<forall>d\<in>set (detections s). 0.85 \<le> confidence d \<and> confidence d \<le> 0.99))"
  using confidence_in_range [OF valid_rng_half, of "''shelf_1''" "''store_1''" 0 0] valid_rng_half
  by simp

text \<open>
  The score of a snapshot is the formula of line 51 over its own metrics, bounded
  from below by 0.
\<close>

lemma score_formula:
  assumes "valid_rng rs" and "generateShelfSnapshot shelfId storeId now rs k = Inr (s, k')"
  shows "overall_score (condition_of s) =
           max 0 (100 - real (misplaced_count (metrics s)) * 10
                    - real (low_stock_count (metrics s)) * 5
                    + (real (length (detections s)) / 20) * 30)"
proof -
  have n: "\<lfloor>rs k * 15\<rfloor> + 10 = int (length (detections s))"
    using snapshot_length_valid [OF assms] by simp
  have "overall_score (condition_of s) =
          conditionScore (misplaced_count (metrics s)) (low_stock_count (metrics s))
            (int (length (detections s)))"
    using snapshot_metrics [OF assms(2)] snapshot_condition [OF assms(2)] by (simp add: n)
  then show ?thesis by (simp add: conditionScore_def)
qed

lemma conditionScore_17: "conditionScore 0 0 17 = 251 / 2"
  by (simp add: conditionScore_def)

text \<open>
  Claim C1, at the input where the code departs from it. With every draw equal to
  1/2 the builder makes 17 detections, none of them flagged, and the score is
  \<open>100 + (17 / 20) * 30 = 125.5\<close>: \<^verbatim>\<open>Math.max(0, ...)\<close> bounds the score from below
  only, where the specification's clamp gives 100.
\<close>

theorem score_above_100:
  "\<exists>s k'. generateShelfSnapshot ''shelf_1'' ''store_1'' 0 rng_half 0 = Inr (s, k')
     \<and> length (detections s) = 17
     \<and> misplaced_count (metrics s) = 0
     \<and> low_stock_count (metrics s) = 0
     \<and> overall_score (condition_of s) = 251 / 2
     \<and> clamp (100 - 0 * 10 - 0 * 5 + (17 / 20) * 30) 0 100 = 100"
proof -
  obtain s k' where g: "generateShelfSnapshot ''shelf_1'' ''store_1'' 0 rng_half 0 = Inr (s, k')"
    using generateShelfSnapshot_total [OF valid_rng_half] by blast
  have n: "\<lfloor>rng_half 0 * 15\<rfloor> + 10 = 17" by (simp add: rng_half_def)
  have len: "length (detections s) = 17" using snapshot_length [OF g] n by simp
  have "\<forall>d\<in>set (detections s). \<not> is_misplaced d \<and> \<not> is_low_stock d"
  proof (rule snapshot_all [OF g])
    fix j m d
    assume "make_detection ''shelf_1'' j 0 rng_half m = Inr d"
    from make_detection_flags [OF this]
    show "\<not> is_misplaced d \<and> \<not> is_low_stock d" by (simp add: rng_half_def)
  qed
  then have f: "filter is_misplaced (detections s) = []" "filter is_low_stock (detections s) = []"
    by (simp_all add: filter_empty_conv)
  from snapshot_metrics [OF g] snapshot_condition [OF g] f n
  have "misplaced_count (metrics s) = 0" "low_stock_count (metrics s) = 0"
    "overall_score (condition_of s) = 251 / 2"
    by (simp_all add: conditionScore_17)
  moreover have "clamp (100 - 0 * 10 - 0 * 5 + (17 / 20) * 30) 0 100 = 100"
    by (simp add: clamp_def)
  ultimately show ?thesis using g len by blast
qed




text \<open>The snapshot of the random source that always returns 0: ten detections, all flagged.\<close>

lemma snapshot_zero:
  assumes g: "generateShelfSnapshot shelfId storeId now rng_zero k = Inr (s, k')"
  shows "length (detections s) = 10 \<and> misplaced_count (metrics s) = 10
         \<and> low_stock_count (metrics s) = 10 \<and> overall_score (condition_of s) = 0"
proof -
  have n: "\<lfloor>rng_zero k * 15\<rfloor> + 10 = 10" by (simp add: rng_zero_def)
  have len: "length (detections s) = 10" using snapshot_length [OF g] n by simp
  have "\<forall>d\<in>set (detections s). is_misplaced d \<and> is_low_stock d"
  proof (rule snapshot_all [OF g])
    fix j m d
    assume "make_detection shelfId j now rng_zero m = Inr d"
    from make_detection_flags [OF this]
    show "is_misplaced d \<and> is_low_stock d" by (simp add: rng_zero_def)
  qed
  then have f: "filter is_misplaced (detections s) = detections s"
    "filter is_low_stock (detections s) = detections s"
    by (simp_all add: filter_id_conv)
  from snapshot_metrics [OF g] snapshot_condition [OF g] f n len
  show ?thesis by (simp add: conditionScore_def)
qed

lemma condition_label_cases:
  "condition_label sc =
     (if 85 \<le> sc then ''Excellent''
      else if 70 \<le> sc then ''Good''
      else if 50 \<le> sc then ''Fair''
      else ''Poor'')"
  by (simp add: condition_label_def Let_def)

text \<open>
  Claim C6. The category of a snapshot follows from its score by the fixed
  thresholds: at least 85 is Excellent, from 70 up to 85 is Good, from 50 up to 70
  is Fair, below 50 is Poor.
\<close>

theorem condition_thresholds:
  assumes "valid_rng rs"
  shows "\<exists>s k'. generateShelfSnapshot shelfId storeId now rs k = Inr (s, k')
           \<and> (85 \<le> overall_score (condition_of s)
                \<longrightarrow> condition (condition_of s) = ''Excellent'')
           \<and> (70 \<le> overall_score (condition_of s) \<and> overall_score (condition_of s) < 85
                \<longrightarrow> condition (condition_of s) = ''Good'')
           \<and> (50 \<le> overall_score (condition_of s) \<and> overall_score (condition_of s) < 70
                \<longrightarrow> condition (condition_of s) = ''Fair'')
           \<and> (overall_score (condition_of s) < 50
                \<longrightarrow> condition (condition_of s) = ''Poor'')"
proof -
  obtain s k' where g: "generateShelfSnapshot shelfId storeId now rs k = Inr (s, k')"
    using generateShelfSnapshot_total [OF assms] by blast
  have "condition (condition_of s) = condition_label (overall_score (condition_of s))"
    using snapshot_condition [OF g] by simp
  then show ?thesis using g by (simp add: condition_label_cases)
qed

theorem condition_thresholds_witness:
  "valid_rng rng_zero \<and>
   (\<exists>s k'. generateShelfSnapshot ''shelf_1'' ''store_1'' 0 rng_zero 0 = Inr (s, k')
      \<and> overall_score (condition_of s) < 50
      \<and> condition (condition_of s) = ''Poor'')"
proof -
  from condition_thresholds [OF valid_rng_zero, of "''shelf_1''" "''store_1''" 0 0]
  obtain s k' where g: "generateShelfSnapshot ''shelf_1'' ''store_1'' 0 rng_zero 0 = Inr (s, k')"
    and p: "overall_score (condition_of s) < 50 \<longrightarrow> condition (condition_of s) = ''Poor''"
    by blast
  from snapshot_zero [OF g] have "overall_score (condition_of s) < 50" by simp
  with p g valid_rng_zero show ?thesis by blast
qed

lemma find_PRODUCTS:
  assumes "p \<in> set PRODUCTS"
  shows "\<exists>q. find (\<lambda>x. p_id x = p_id p) PRODUCTS = Some q \<and> price q \<noteq> 0 \<and> p_id q = p_id p"
proof -
  have "\<exists>q. find (\<lambda>x. p_id x = p_id p) PRODUCTS = Some q \<and> q \<in> set PRODUCTS \<and> p_id q = p_id p"
    using assms by (cases "find (\<lambda>x. p_id x = p_id p) PRODUCTS")
      (auto simp: find_None_iff find_Some_iff)
  moreover have "\<forall>q\<in>set PRODUCTS. price q \<noteq> 0" by (simp add: PRODUCTS_def)
  ultimately show ?thesis by blast
qed

lemma foldl_add_sum_list:
  "foldl (\<lambda>sum d. sum + f d) a xs = (a::real) + sum_list (map f xs)"
  by (induction xs arbitrary: a) simp_all

text \<open>
  Claim C10. Every detection of a snapshot carries the id of one of the ten
  products of the table. So the lookup made for the total value (\<open>matched_price\<close>,
  lines 43 and 44) finds a product, whose price is not zero, and returns that
  price: neither fallback to 0 is taken, and the total value is the sum of the
  prices found.
\<close>

theorem product_ids_in_catalog:
  assumes "valid_rng rs"
  shows "\<exists>s k'. generateShelfSnapshot shelfId storeId now rs k = Inr (s, k')
           \<and> length PRODUCTS = 10
           \<and> detections s \<noteq> []
           \<and> (\<forall>d\<in>set (detections s).
                 (\<exists>p\<in>set PRODUCTS. p_id p = product_id d)
                 \<and> (\<exists>q. find (\<lambda>p. p_id p = product_id d) PRODUCTS = Some q \<and> price q \<noteq> 0
                        \<and> matched_price d = price q))
           \<and> total_value (metrics s) = sum_list (map matched_price (detections s))"
proof -
  obtain s k' where g: "generateShelfSnapshot shelfId storeId now rs k = Inr (s, k')"
    using generateShelfSnapshot_total [OF assms] by blast
  have "\<forall>d\<in>set (detections s).
          (\<exists>p\<in>set PRODUCTS. p_id p = product_id d)
          \<and> (\<exists>q. find (\<lambda>p. p_id p = product_id d) PRODUCTS = Some q \<and> price q \<noteq> 0
                 \<and> matched_price d = price q)"
  proof (rule snapshot_all [OF g])
    fix j m d
    assume "make_detection shelfId j now rs m = Inr d"
    then obtain p where p: "p \<in> set PRODUCTS" "p_id p = product_id d"
      using make_detection_product by blast
    from find_PRODUCTS [OF p(1)] p(2)
    obtain q where q: "find (\<lambda>x. p_id x = product_id d) PRODUCTS = Some q" "price q \<noteq> 0"
      by auto
    then have "matched_price d = price q" by (simp add: matched_price_def)
    with p q
    show "(\<exists>p\<in>set PRODUCTS. p_id p = product_id d)
          \<and> (\<exists>q. find (\<lambda>p. p_id p = product_id d) PRODUCTS = Some q \<and> price q \<noteq> 0
                 \<and> matched_price d = price q)"
      by blast
  qed
  moreover have "detections s \<noteq> []"
    using snapshot_length_valid [OF assms g] by auto
  moreover have "total_value (metrics s) = sum_list (map matched_price (detections s))"
    using snapshot_metrics [OF g] by (simp add: totalValue_def foldl_add_sum_list)
  ultimately show ?thesis using g length_PRODUCTS by blast
qed

theorem product_ids_in_catalog_witness:
  "valid_rng rng_half \<and>
   (\<exists>s k'. generateShelfSnapshot ''shelf_1'' ''store_1'' 0 rng_half 0 = Inr (s, k')
      \<and> length PRODUCTS = 10
      \<and> detections s \<noteq> []
      \<and> (\<forall>d\<in>set (detections s).
            (\<exists>p\<in>set PRODUCTS. p_id p = product_id d)
            \<and> (\<exists>q. find (\<lambda>p. p_id p = product_id d) PRODUCTS = Some q \<and> price q \<noteq> 0
                   \<and> matched_price d = price q))
      \<and> total_value (metrics s) = sum_list (map matched_price (detections s)))"
  using product_ids_in_catalog [OF valid_rng_half, of "''shelf_1''" "''store_1''" 0 0]
    valid_rng_half
  by simp

lemma length_filter_count_list:
  "length (filter P xs) = count_list (map P xs) True"
  by (induction xs) simp_all

lemma find_map_of_price:
  "find (\<lambda>p. p_id p = x) ps = Some q \<Longrightarrow>
   map_of (map (\<lambda>p. (p_id p, price p)) ps) x = Some (price q)"
  by (induction ps) (auto split: if_splits)

lemma matched_price_catalog:
  assumes "find (\<lambda>p. p_id p = product_id d) PRODUCTS = Some q"
  shows "catalog_price (product_id d) = Some (matched_price d)"
  using find_map_of_price [OF assms] assms
  by (simp add: catalog_price_def matched_price_def)

text \<open>
  Claim C7. Each metric of a snapshot is a reduction of its list of detections:
  \<^verbatim>\<open>total_products\<close> is its length, \<^verbatim>\<open>unique_products\<close> the number of distinct
  product ids, \<^verbatim>\<open>avg_confidence\<close> the arithmetic mean of the confidences,
  \<^verbatim>\<open>total_value\<close> the sum of the catalog prices of the detections' product ids
  (each of which is in the catalog), and the two counts are the numbers of
  detections with the flag set. The list is never empty, so the mean is that of
  at least one number.
\<close>

theorem metrics_are_reductions:
  assumes "valid_rng rs"
  shows "\<exists>s k'. generateShelfSnapshot shelfId storeId now rs k = Inr (s, k')
           \<and> detections s \<noteq> []
           \<and> total_products (metrics s) = length (detections s)
           \<and> unique_products (metrics s) = card (product_id ` set (detections s))
           \<and> avg_confidence (metrics s) = Some (mean (map confidence (detections s)))
           \<and> (\<forall>d\<in>set (detections s). catalog_price (product_id d) \<noteq> None)
           \<and> total_value (metrics s)
               = sum_list (map (\<lambda>d. the (catalog_price (product_id d))) (detections s))
           \<and> misplaced_count (metrics s) = count_list (map is_misplaced (detections s)) True
           \<and> low_stock_count (metrics s) = count_list (map is_low_stock (detections s)) True"
proof -
  obtain s k' where g: "generateShelfSnapshot shelfId storeId now rs k = Inr (s, k')"
    using generateShelfSnapshot_total [OF assms] by blast
  note m = snapshot_metrics [OF g]
  have ne: "length (detections s) \<noteq> 0"
    using snapshot_length_valid [OF assms g] by auto
  have cat: "\<forall>d\<in>set (detections s). catalog_price (product_id d) = Some (matched_price d)"
  proof (rule snapshot_all [OF g])
    fix j m d
    assume "make_detection shelfId j now rs m = Inr d"
    then obtain p where p: "p \<in> set PRODUCTS" "p_id p = product_id d"
      using make_detection_product by blast
    from find_PRODUCTS [OF p(1)] p(2)
    obtain q where "find (\<lambda>x. p_id x = product_id d) PRODUCTS = Some q" by auto
    then show "catalog_price (product_id d) = Some (matched_price d)"
      by (rule matched_price_catalog)
  qed
  have 0: "detections s \<noteq> []" using ne by simp
  have 1: "total_products (metrics s) = length (detections s)" using m by simp
  have 2: "unique_products (metrics s) = card (product_id ` set (detections s))"
    using m by (simp add: length_remdups_card_conv)
  have 3: "avg_confidence (metrics s) = Some (mean (map confidence (detections s)))"
    using m ne by (simp add: js_div_def mean_def foldl_add_sum_list)
  have 4: "\<forall>d\<in>set (detections s). catalog_price (product_id d) \<noteq> None"
    using cat by simp
  have e: "map matched_price (detections s)
          = map (\<lambda>d. the (catalog_price (product_id d))) (detections s)"
    using cat by simp
  have tv: "total_value (metrics s) = sum_list (map matched_price (detections s))"
    using m by (simp add: totalValue_def foldl_add_sum_list)
  have 5: "total_value (metrics s)
      = sum_list (map (\<lambda>d. the (catalog_price (product_id d))) (detections s))"
    unfolding tv e ..
  have 6: "misplaced_count (metrics s) = count_list (map is_misplaced (detections s)) True"
    using m by (simp add: length_filter_count_list)
  have 7: "low_stock_count (metrics s) = count_list (map is_low_stock (detections s)) True"
    using m by (simp add: length_filter_count_list)
  from g 0 1 2 3 4 5 6 7 show ?thesis by blast
qed

theorem metrics_are_reductions_witness:
  "valid_rng rng_half \<and>
   (\<exists>s k'. generateShelfSnapshot ''shelf_1'' ''store_1'' 0 rng_half 0 = Inr (s, k')
           \<and> detections s \<noteq> []
           \<and> total_products (metrics s) = length (detections s)
           \<and> unique_products (metrics s) = card (product_id ` set (detections s))
           \<and> avg_confidence (metrics s) = Some (mean (map confidence (detections s)))
           \<and> (\<forall>d\<in>set (detections s). catalog_price (product_id d) \<noteq> None)
           \<and> total_value (metrics s)
               = sum_list (map (\<lambda>d. the (catalog_price (product_id d))) (detections s))
           \<and> misplaced_count (metrics s) = count_list (map is_misplaced (detections s)) True
           \<and> low_stock_count (metrics s) = count_list (map is_low_stock (detections s)) True)"
  using metrics_are_reductions [OF valid_rng_half, of "''shelf_1''" "''store_1''" 0 0]
    valid_rng_half
  by simp

section \<open>Properties of store analytics\<close>

lemma shelves_loop_all:
  "shelves_loop storeId now rs n i k acc = Inr (ss, k') \<Longrightarrow>
   (\<And>shelfId m s m'. generateShelfSnapshot shelfId storeId now rs m = Inr (s, m') \<Longrightarrow> Q s) \<Longrightarrow>
   \<forall>s\<in>set acc. Q s \<Longrightarrow> \<forall>s\<in>set ss. Q s"
proof (induction storeId now rs n i k acc rule: shelves_loop.induct)
  case (1 storeId now rs numShelves i k acc)
  show ?case
  proof (cases "int i < numShelves")
    case True
    then obtain s m where s: "generateShelfSnapshot (''shelf_'' @ show_nat (i + 1)) storeId now rs k = Inr (s, m)"
      and rec: "shelves_loop storeId now rs numShelves (Suc i) m (acc @ [s]) = Inr (ss, k')"
      using "1.prems"(1) by (subst (asm) shelves_loop.simps) (auto split: sum.splits)
    have "Q s" using "1.prems"(2) s by blast
    with "1.prems"(3) have "\<forall>x\<in>set (acc @ [s]). Q x" by simp
    with "1.IH" [OF True s refl rec] "1.prems"(2) show ?thesis by blast
  next
    case False
    with "1.prems" show ?thesis by (subst (asm) shelves_loop.simps) simp
  qed
qed

lemma shelves_loop_length:
  "shelves_loop storeId now rs n i k acc = Inr (ss, k') \<Longrightarrow>
     length ss = length acc + nat (n - int i)"
proof (induction storeId now rs n i k acc rule: shelves_loop.induct)
  case (1 storeId now rs numShelves i k acc)
  show ?case
  proof (cases "int i < numShelves")
    case True
    then obtain s m where s: "generateShelfSnapshot (''shelf_'' @ show_nat (i + 1)) storeId now rs k = Inr (s, m)"
      and rec: "shelves_loop storeId now rs numShelves (Suc i) m (acc @ [s]) = Inr (ss, k')"
      using "1.prems"(1) by (subst (asm) shelves_loop.simps) (auto split: sum.splits)
    have "nat (numShelves - int i) = Suc (nat (numShelves - int (Suc i)))"
      using True by simp
    with "1.IH" [OF True s refl rec] show ?thesis by simp
  next
    case False
    with "1.prems" show ?thesis by (subst (asm) shelves_loop.simps) simp
  qed
qed

lemma shelves_loop_total:
  "valid_rng rs \<Longrightarrow> \<exists>ss k'. shelves_loop storeId now rs n i k acc = Inr (ss, k')"
proof (induction storeId now rs n i k acc rule: shelves_loop.induct)
  case (1 storeId now rs numShelves i k acc)
  show ?case
  proof (cases "int i < numShelves")
    case True
    obtain s m where s: "generateShelfSnapshot (''shelf_'' @ show_nat (i + 1)) storeId now rs k = Inr (s, m)"
      using generateShelfSnapshot_total [OF "1.prems"] by blast
    from "1.IH" [OF True s refl "1.prems"] True s show ?thesis
      by (subst shelves_loop.simps) simp
  next
    case False
    then show ?thesis by (subst shelves_loop.simps) simp
  qed
qed

lemma shelves_loop_none:
  "numShelves \<le> 0 \<Longrightarrow> shelves_loop storeId now rs numShelves 0 k [] = Inr ([], k)"
  by (subst shelves_loop.simps) simp

lemma bucket_sum:
  "\<forall>s\<in>set ss. condition (condition_of s) \<in> {''Excellent'', ''Good'', ''Fair'', ''Poor''} \<Longrightarrow>
   length (filter (\<lambda>s. condition (condition_of s) = ''Excellent'') ss)
   + length (filter (\<lambda>s. condition (condition_of s) = ''Good'') ss)
   + length (filter (\<lambda>s. condition (condition_of s) = ''Fair'') ss)
   + length (filter (\<lambda>s. condition (condition_of s) = ''Poor'') ss)
   = length ss"
  by (induction ss) auto

lemma snapshot_label:
  assumes "generateShelfSnapshot shelfId storeId now rs m = Inr (s, m')"
  shows "condition (condition_of s) \<in> {''Excellent'', ''Good'', ''Fair'', ''Poor''}"
  using snapshot_condition [OF assms] by (simp add: condition_label_cases)

lemma analytics_fields:
  assumes "generateStoreAnalytics storeId numShelves now rs k = Inr (a, k')"
  shows "shelves_loop storeId now rs numShelves 0 k [] = Inr (shelf_snapshots a, k')"
    and "total_shelves (summary a) = numShelves"
    and "performance a =
       \<lparr>excellent_shelves =
          length (filter (\<lambda>s. condition (condition_of s) = ''Excellent'') (shelf_snapshots a)),
        good_shelves =
          length (filter (\<lambda>s. condition (condition_of s) = ''Good'') (shelf_snapshots a)),
        fair_shelves =
          length (filter (\<lambda>s. condition (condition_of s) = ''Fair'') (shelf_snapshots a)),
        poor_shelves =
          length (filter (\<lambda>s. condition (condition_of s) = ''Poor'') (shelf_snapshots a))\<rparr>"
  using assms
  by (auto simp: generateStoreAnalytics_def Let_def split: sum.splits)

lemma generateStoreAnalytics_total:
  assumes "valid_rng rs"
  shows "\<exists>a k'. generateStoreAnalytics storeId numShelves now rs k = Inr (a, k')"
proof -
  obtain ss k' where "shelves_loop storeId now rs numShelves 0 k [] = Inr (ss, k')"
    using shelves_loop_total [OF assms] by blast
  then show ?thesis by (simp add: generateStoreAnalytics_def Let_def)
qed

text \<open>
  Claim C9. For a positive shelf count \<open>N\<close> the aggregator returns analytics made of
  \<open>N\<close> shelf snapshots, and the four bucket counts sum to \<open>N\<close>.
\<close>

theorem buckets_sum_to_shelf_count:
  assumes "valid_rng rs" and "0 < N"
  shows "\<exists>a k'. generateStoreAnalytics storeId N now rs k = Inr (a, k')
           \<and> total_shelves (summary a) = N
           \<and> int (length (shelf_snapshots a)) = N
           \<and> int (excellent_shelves (performance a) + good_shelves (performance a)
                   + fair_shelves (performance a) + poor_shelves (performance a)) = N"
proof -
  obtain a k' where g: "generateStoreAnalytics storeId N now rs k = Inr (a, k')"
    using generateStoreAnalytics_total [OF assms(1)] by blast
  note l = analytics_fields(1) [OF g]
  have len: "int (length (shelf_snapshots a)) = N"
    using shelves_loop_length [OF l] assms(2) by simp
  have "\<forall>s\<in>set (shelf_snapshots a).
          condition (condition_of s) \<in> {''Excellent'', ''Good'', ''Fair'', ''Poor''}"
    by (rule shelves_loop_all [OF l]) (auto dest: snapshot_label)
  from bucket_sum [OF this] analytics_fields(3) [OF g]
  have "excellent_shelves (performance a) + good_shelves (performance a)
          + fair_shelves (performance a) + poor_shelves (performance a)
        = length (shelf_snapshots a)"
    by simp
  with len g analytics_fields(2) [OF g] show ?thesis by simp
qed

theorem buckets_sum_to_shelf_count_witness:
  "valid_rng rng_half \<and> (0::int) < 12 \<and>
   (\<exists>a k'. generateStoreAnalytics ''store_1'' 12 0 rng_half 0 = Inr (a, k')
           \<and> total_shelves (summary a) = 12
           \<and> int (length (shelf_snapshots a)) = 12
           \<and> int (excellent_shelves (performance a) + good_shelves (performance a)
                   + fair_shelves (performance a) + poor_shelves (performance a)) = 12)"
  using buckets_sum_to_shelf_count [OF valid_rng_half, of 12 "''store_1''" 0 0] valid_rng_half
  by simp

text \<open>
  Claim C4 as stated fails: with a shelf count of 0 the aggregator raises nothing
  and returns analytics.
\<close>

theorem no_validation_of_shelf_count:
  "generateStoreAnalytics ''store_1'' 0 0 rng_half 0 =
     Inr (\<lparr>analytics_store_id = ''store_1'',
           analytics_timestamp = 0,
           summary =
             \<lparr>total_shelves = 0, summary_total_products = 0, summary_total_value = 0,
              summary_avg_confidence = None, total_alerts = 0, efficiency_score = None\<rparr>,
           shelf_snapshots = [],
           performance =
             \<lparr>excellent_shelves = 0, good_shelves = 0, fair_shelves = 0, poor_shelves = 0\<rparr>\<rparr>,
          0)"
  by (simp add: generateStoreAnalytics_def shelves_loop_none js_div_def)

text \<open>
  Claim C4, amended. For a shelf count that is zero or negative the aggregator
  raises no error. Its loop does not run: no shelf snapshot is generated, nothing
  is drawn from the random source, and the analytics returned have no snapshots,
  zero totals and zero bucket counts. The average confidence is the non-finite
  \<^verbatim>\<open>0 / 0\<close>; the efficiency score is non-finite for the count 0 and zero for a
  negative count.
\<close>

theorem nonpositive_shelf_count:
  assumes "numShelves \<le> 0"
  shows "generateStoreAnalytics storeId numShelves now rs k =
     Inr (\<lparr>analytics_store_id = storeId,
           analytics_timestamp = now,
           summary =
             \<lparr>total_shelves = numShelves, summary_total_products = 0, summary_total_value = 0,
              summary_avg_confidence = None, total_alerts = 0,
              efficiency_score = (if numShelves = 0 then None else Some 0)\<rparr>,
           shelf_snapshots = [],
           performance =
             \<lparr>excellent_shelves = 0, good_shelves = 0, fair_shelves = 0, poor_shelves = 0\<rparr>\<rparr>,
          k)"
  using assms by (simp add: generateStoreAnalytics_def shelves_loop_none js_div_def)

theorem nonpositive_shelf_count_witness:
  "(-3::int) \<le> 0 \<and>
   generateStoreAnalytics ''store_1'' (-3) 0 rng_half 0 =
     Inr (\<lparr>analytics_store_id = ''store_1'',
           analytics_timestamp = 0,
           summary =
             \<lparr>total_shelves = -3, summary_total_products = 0, summary_total_value = 0,
              summary_avg_confidence = None, total_alerts = 0,
              efficiency_score = Some 0\<rparr>,
           shelf_snapshots = [],
           performance =
             \<lparr>excellent_shelves = 0, good_shelves = 0, fair_shelves = 0, poor_shelves = 0\<rparr>\<rparr>,
          0)"
  using nonpositive_shelf_count [of "-3" "''store_1''" 0 rng_half 0] by simp

section \<open>Properties of the request handler\<close>

text \<open>
  Claim C3 as stated fails: called with the empty shelf id, the builder returns a
  snapshot with 17 detections.
\<close>

theorem empty_shelf_id_accepted:
  "\<not> isl (generateShelfSnapshot [] ''store_1'' 0 rng_half 0)
   \<and> length (detections (fst (projr (generateShelfSnapshot [] ''store_1'' 0 rng_half 0)))) = 17
   \<and> shelf_id (fst (projr (generateShelfSnapshot [] ''store_1'' 0 rng_half 0))) = []"
proof -
  obtain s k' where g: "generateShelfSnapshot [] ''store_1'' 0 rng_half 0 = Inr (s, k')"
    using generateShelfSnapshot_total [OF valid_rng_half] by blast
  have "\<lfloor>rng_half 0 * 15\<rfloor> + 10 = 17" by (simp add: rng_half_def)
  with snapshot_length [OF g] have "length (detections s) = 17" by simp
  with g snapshot_ids [OF g] show ?thesis by simp
qed

lemma GET_shelf_rejected:
  assumes "param_type req = Some ''shelf''" and "\<not> truthy (param_shelfId req)"
  shows "GET req now rs k = \<lparr>body = Error_body ''Invalid request type'', status = 400\<rparr>"
  using assms by (simp add: GET_def or_default_def)

lemma GET_shelf_accepted:
  assumes "param_type req = Some ''shelf''" and "param_shelfId req = Some shelfId"
    and "shelfId \<noteq> []"
    and "generateShelfSnapshot shelfId (or_default (param_storeId req) ''store_001'') now rs k
           = Inr (s, k')"
  shows "GET req now rs k = \<lparr>body = Snapshot_body s, status = 200\<rparr>"
  using assms by (simp add: GET_def or_default_def truthy_def)

text \<open>
  Claim C3, amended. The builder does not look at the shelf id: for every shelf
  id, the empty one included, it returns a snapshot of at least ten detections.
  The check is in the request handler: a request of type \<^verbatim>\<open>shelf\<close> whose shelf id
  is absent or empty generates nothing and is answered with status 400 and the
  message \<^verbatim>\<open>Invalid request type\<close>; with a non-empty shelf id it is answered with
  the snapshot of that shelf.
\<close>

theorem shelf_id_checked_by_handler:
  assumes "valid_rng rs"
  shows "(\<exists>s k'. generateShelfSnapshot shelfId storeId now rs k = Inr (s, k')
            \<and> shelf_id s = shelfId \<and> 10 \<le> length (detections s))
         \<and> (param_type req = Some ''shelf'' \<and> \<not> truthy (param_shelfId req)
              \<longrightarrow> GET req now rs k
                    = \<lparr>body = Error_body ''Invalid request type'', status = 400\<rparr>)
         \<and> (param_type req = Some ''shelf'' \<and> param_shelfId req = Some shelfId \<and> shelfId \<noteq> []
              \<longrightarrow> (\<exists>s. GET req now rs k = \<lparr>body = Snapshot_body s, status = 200\<rparr>
                        \<and> shelf_id s = shelfId \<and> 10 \<le> length (detections s)))"
proof (intro conjI impI)
  obtain s k' where g: "generateShelfSnapshot shelfId storeId now rs k = Inr (s, k')"
    using generateShelfSnapshot_total [OF assms] by blast
  with snapshot_ids [OF g] snapshot_length_valid [OF assms g]
  show "\<exists>s k'. generateShelfSnapshot shelfId storeId now rs k = Inr (s, k')
          \<and> shelf_id s = shelfId \<and> 10 \<le> length (detections s)"
    by blast
next
  assume "param_type req = Some ''shelf'' \<and> \<not> truthy (param_shelfId req)"
  then show "GET req now rs k = \<lparr>body = Error_body ''Invalid request type'', status = 400\<rparr>"
    by (simp add: GET_shelf_rejected)
next
  assume a: "param_type req = Some ''shelf'' \<and> param_shelfId req = Some shelfId \<and> shelfId \<noteq> []"
  obtain s k' where g: "generateShelfSnapshot shelfId
      (or_default (param_storeId req) ''store_001'') now rs k = Inr (s, k')"
    using generateShelfSnapshot_total [OF assms] by blast
  from a g have "GET req now rs k = \<lparr>body = Snapshot_body s, status = 200\<rparr>"
    by (simp add: GET_shelf_accepted)
  with snapshot_ids [OF g] snapshot_length_valid [OF assms g]
  show "\<exists>s. GET req now rs k = \<lparr>body = Snapshot_body s, status = 200\<rparr>
          \<and> shelf_id s = shelfId \<and> 10 \<le> length (detections s)"
    by blast
qed

theorem shelf_id_checked_by_handler_witness:
  "valid_rng rng_half
   \<and> (\<exists>s k'. generateShelfSnapshot [] ''store_1'' 0 rng_half 0 = Inr (s, k')
         \<and> shelf_id s = [] \<and> 10 \<le> length (detections s))
   \<and> GET \<lparr>param_type = Some ''shelf'', param_storeId = None, param_shelfId = Some []\<rparr>
         0 rng_half 0
       = \<lparr>body = Error_body ''Invalid request type'', status = 400\<rparr>
   \<and> (\<exists>s. GET \<lparr>param_type = Some ''shelf'', param_storeId = None,
                 param_shelfId = Some ''shelf_demo''\<rparr> 0 rng_half 0
             = \<lparr>body = Snapshot_body s, status = 200\<rparr>
          \<and> shelf_id s = ''shelf_demo'' \<and> 10 \<le> length (detections s))"
  using
    shelf_id_checked_by_handler [OF valid_rng_half, of "[]" "''store_1''" 0 0
      "\<lparr>param_type = Some ''shelf'', param_storeId = None, param_shelfId = Some []\<rparr>"]
    shelf_id_checked_by_handler [OF valid_rng_half, of "''shelf_demo''" "''store_1''" 0 0
      "\<lparr>param_type = Some ''shelf'', param_storeId = None, param_shelfId = Some ''shelf_demo''\<rparr>"]
    valid_rng_half
  by (simp add: truthy_def)

section \<open>Properties of the stream scheduler's validation\<close>

text \<open>
  Claim C5. A configuration whose weights do not sum to 1 within \<open>10\<^sup>-\<^sup>6\<close>, or
  whose camera count, duration or frame rate is not positive, makes \<^verbatim>\<open>simulate\<close>
  fail with \<^verbatim>\<open>InvalidConfiguration\<close>; the failure carries no event.
\<close>

theorem invalid_configuration_rejected:
  assumes "1 / 10 ^ 6 < \<bar>w_detection (event_weights cfg) + w_alert (event_weights cfg)
                          + w_status (event_weights cfg) - 1\<bar>
           \<or> cameraCount cfg \<le> 0 \<or> durationSeconds cfg \<le> 0 \<or> frameRate cfg \<le> 0"
  shows "simulate cfg rs = Inl InvalidConfiguration"
  using assms by (auto simp: simulate_def config_ok_def weights_ok_def weights_sum_def)

theorem invalid_configuration_rejected_witness:
  "1 / 10 ^ 6 < \<bar>w_detection (event_weights scenario_config)
                   + w_alert (event_weights scenario_config)
                   + w_status (event_weights scenario_config) - 1\<bar>
   \<and> simulate scenario_config rng_half = Inl InvalidConfiguration"
proof -
  have h: "1 / 10 ^ 6 < \<bar>w_detection (event_weights scenario_config)
                   + w_alert (event_weights scenario_config)
                   + w_status (event_weights scenario_config) - 1\<bar>"
    by (simp add: scenario_config_def)
  from invalid_configuration_rejected [of scenario_config rng_half] h show ?thesis by blast
qed

text \<open>A valid configuration is accepted, with one event per camera and frame interval.\<close>

lemma valid_configuration_accepted:
  assumes "config_ok cfg"
  shows "\<exists>evs. simulate cfg rs = Inr evs
           \<and> length evs = nat (cameraCount cfg) * nat \<lfloor>durationSeconds cfg * frameRate cfg\<rfloor>"
proof -
  have "length (concat (map (camera_events cfg rs) [0..<n]))
          = n * nat \<lfloor>durationSeconds cfg * frameRate cfg\<rfloor>" for n
    by (induction n) (simp_all add: camera_events_def Let_def)
  with assms show ?thesis by (simp add: simulate_def)
qed

end
